theory Spec2Isabelle
  imports
    Complex_Main
    "HOL-Library.Char_ord"
    "HOL-Library.List_Lexorder"
    "HOL-Library.Product_Lexorder"
begin

section \<open>Python strings\<close>

text \<open>
  A Python \<^verbatim>\<open>str\<close> is modelled as a \<^typ>\<open>string\<close>. A \<^typ>\<open>char\<close> is read as the
  code point of the same number, so the model covers text in the range U+0000..U+00FF.
  The three string methods the program uses are \<^verbatim>\<open>split(',')\<close>, \<^verbatim>\<open>strip()\<close> and
  \<^verbatim>\<open>lower()\<close>.
\<close>

text \<open>
  \<^verbatim>\<open>str.isspace\<close> on one character: TAB, LF, VT, FF, CR (9..13), the four separators
  FS, GS, RS, US (28..31), the space (32), NEL (133) and the no-break space (160).
\<close>

definition isspace :: "char \<Rightarrow> bool" where
  "isspace c =
     (let n = (of_char c :: nat)
      in (9 \<le> n \<and> n \<le> 13) \<or> (28 \<le> n \<and> n \<le> 32) \<or> n = 133 \<or> n = 160)"

text \<open>\<^verbatim>\<open>s.strip()\<close>: whitespace is removed at both ends, never inside.\<close>

definition strip :: "string \<Rightarrow> string" where
  "strip s = rev (dropWhile isspace (rev (dropWhile isspace s)))"

text \<open>
  \<^verbatim>\<open>str.lower\<close> on one character: A..Z, and the upper-case letters of the upper half
  (192..222 without the multiplication sign 215), move up by 32.
\<close>

definition lower_char :: "char \<Rightarrow> char" where
  "lower_char c =
     (let n = (of_char c :: nat)
      in if (65 \<le> n \<and> n \<le> 90) \<or> (192 \<le> n \<and> n \<le> 222 \<and> n \<noteq> 215)
         then char_of (n + 32) else c)"

definition lower :: "string \<Rightarrow> string" where
  "lower s = map lower_char s"

text \<open>
  \<^verbatim>\<open>s.split(',')\<close>: one piece more than there are commas, so the result is never the
  empty list; \<^verbatim>\<open>''.split(',')\<close> is \<^verbatim>\<open>['']\<close>.
\<close>

fun split_comma :: "string \<Rightarrow> string list" where
  "split_comma [] = [[]]"
| "split_comma (c # cs) =
     (if c = CHR '','' then [] # split_comma cs
      else (case split_comma cs of
              [] \<Rightarrow> [[c]]
            | t # ts \<Rightarrow> (c # t) # ts))"

section \<open>The catalog\<close>

text \<open>
  A cell of a text column of a data frame read from a CSV file holds a string, or the
  float NaN where the file has nothing. \<^verbatim>\<open>str(cell)\<close> is the string itself, or
  \<^verbatim>\<open>'nan'\<close>.
\<close>

datatype cell = Str string | NaN

fun py_str :: "cell \<Rightarrow> string" where
  "py_str (Str s) = s"
| "py_str NaN = ''nan''"

text \<open>
  A user id is an integer or a string, in the \<^verbatim>\<open>UserID\<close> column as in the request;
  the program compares \<^verbatim>\<open>str\<close> of both. \<^verbatim>\<open>str\<close> of an integer is its decimal
  numeral, with a minus sign below zero.
\<close>

datatype pyid = IdInt int | IdStr string

function digits :: "nat \<Rightarrow> string" where
  "digits n =
     (if n < 10 then [char_of (48 + n)]
      else digits (n div 10) @ [char_of (48 + n mod 10)])"
  by pat_completeness auto
termination
  by (relation "measure (\<lambda>n. n)") auto

definition str_int :: "int \<Rightarrow> string" where
  "str_int i = (if i < 0 then CHR ''-'' # digits (nat (- i)) else digits (nat i))"

fun str_id :: "pyid \<Rightarrow> string" where
  "str_id (IdInt i) = str_int i"
| "str_id (IdStr s) = s"

text \<open>
  \<^verbatim>\<open>PopularityScore\<close> is a column of floats. A finite float is the rational it
  denotes. A blank cell of the column is the float NaN: at startup the program fills
  the column with random numbers only when the file has no such column at all.
  Every comparison with NaN is false, and NaN is not equal to any float.
\<close>

datatype pyfloat = Float rat | FloatNaN

fun float_lt :: "pyfloat \<Rightarrow> pyfloat \<Rightarrow> bool" where
  "float_lt (Float x) (Float y) = (x < y)"
| "float_lt _ _ = False"

fun float_le :: "pyfloat \<Rightarrow> pyfloat \<Rightarrow> bool" where
  "float_le (Float x) (Float y) = (x \<le> y)"
| "float_le _ _ = False"

fun float_eq :: "pyfloat \<Rightarrow> pyfloat \<Rightarrow> bool" where
  "float_eq (Float x) (Float y) = (x = y)"
| "float_eq _ _ = False"

text \<open>The rows of the two tables.\<close>

record destination =
  Name :: cell
  District :: cell
  State :: cell
  Category :: cell
  BestTimeToVisit :: cell
  PopularityScore :: pyfloat

record user =
  UserID :: pyid
  UserName :: cell
  Gender :: cell
  Location :: cell
  TravelPreferences :: cell
  NumberOfAdults :: int
  NumberOfChildren :: int

text \<open>The dictionary that the three recommenders append for a candidate.\<close>

record recommendation =
  rec_Name :: string
  rec_Category :: string
  rec_District :: string
  rec_State :: string
  rec_BestTimeToVisit :: string
  MatchScore :: rat
  rec_PopularityScore :: pyfloat

section \<open>The scorer (app.py)\<close>

text \<open>
  \<^verbatim>\<open>calculate_similarity_score\<close>. The quotient of the two lengths is a Python float;
  it is modelled by the rational it rounds. A cell that is not a string has no
  \<^verbatim>\<open>split\<close>: the AttributeError is caught by the function's own handler, which
  returns 0.
\<close>

definition parse_cats :: "string \<Rightarrow> string set" where
  "parse_cats s = set (map (\<lambda>cat. lower (strip cat)) (split_comma s))"

fun calculate_similarity_score :: "cell \<Rightarrow> cell \<Rightarrow> rat" where
  "calculate_similarity_score (Str query_categories) (Str destination_categories) =
     (let query_cats = parse_cats query_categories;
          dest_cats = parse_cats destination_categories
      in if query_cats = {} then 0
         else (let common_cats = query_cats \<inter> dest_cats
               in of_nat (card common_cats) / of_nat (card query_cats)))"
| "calculate_similarity_score _ _ = 0"

section \<open>The recommenders (app.py)\<close>

definition recommendation_of :: "destination \<Rightarrow> rat \<Rightarrow> recommendation" where
  "recommendation_of dest score =
     \<lparr> rec_Name = py_str (Name dest),
       rec_Category = py_str (Category dest),
       rec_District = py_str (District dest),
       rec_State = py_str (State dest),
       rec_BestTimeToVisit = py_str (BestTimeToVisit dest),
       MatchScore = score,
       rec_PopularityScore = PopularityScore dest \<rparr>"

text \<open>
  \<^verbatim>\<open>list.sort\<close> compares keys with \<^verbatim>\<open><\<close> only. It looks for the run at the front
  of the list (\<^verbatim>\<open>count_run\<close>): ascending as long as no element is less than the one
  before it, or descending as long as each element is less than the one before it, and
  a descending run is reversed in place. The elements after the run are then inserted
  one by one, each at the place a binary search finds for it (\<^verbatim>\<open>binarysort\<close>).
  This is the whole of the sort for a list of fewer than 64 elements. A longer list is
  cut into such runs, which are merged; when every two keys are comparable that gives
  the same list, since the sort is stable.
\<close>

fun run_asc :: "('a \<Rightarrow> 'a \<Rightarrow> bool) \<Rightarrow> 'a \<Rightarrow> 'a list \<Rightarrow> nat" where
  "run_asc lt prev [] = 0"
| "run_asc lt prev (x # xs) = (if lt x prev then 0 else Suc (run_asc lt x xs))"

fun run_desc :: "('a \<Rightarrow> 'a \<Rightarrow> bool) \<Rightarrow> 'a \<Rightarrow> 'a list \<Rightarrow> nat" where
  "run_desc lt prev [] = 0"
| "run_desc lt prev (x # xs) = (if lt x prev then Suc (run_desc lt x xs) else 0)"

text \<open>The length of the run and whether it is descending.\<close>

fun count_run :: "('a \<Rightarrow> 'a \<Rightarrow> bool) \<Rightarrow> 'a list \<Rightarrow> nat \<times> bool" where
  "count_run lt [] = (0, False)"
| "count_run lt [x] = (1, False)"
| "count_run lt (x # y # ys) =
     (if lt y x then (2 + run_desc lt y ys, True) else (2 + run_asc lt y ys, False))"

text \<open>
  The binary search of \<^verbatim>\<open>binarysort\<close> for the place of \<open>pivot\<close> between the
  indices \<open>l\<close> and \<open>r\<close> of the part already in order.
\<close>

function bsearch :: "('a \<Rightarrow> 'a \<Rightarrow> bool) \<Rightarrow> 'a \<Rightarrow> 'a list \<Rightarrow> nat \<Rightarrow> nat \<Rightarrow> nat" where
  "bsearch lt pivot xs l r =
     (if l < r then
        (let p = l + (r - l) div 2
         in if lt pivot (xs ! p) then bsearch lt pivot xs l p
            else bsearch lt pivot xs (p + 1) r)
      else l)"
  by pat_completeness auto
termination
  by (relation "measure (\<lambda>(lt, pivot, xs, l, r). r - l)") auto

declare bsearch.simps [simp del]

fun binarysort :: "('a \<Rightarrow> 'a \<Rightarrow> bool) \<Rightarrow> 'a list \<Rightarrow> 'a list \<Rightarrow> 'a list" where
  "binarysort lt prefix [] = prefix"
| "binarysort lt prefix (pivot # rest) =
     (let l = bsearch lt pivot prefix 0 (length prefix)
      in binarysort lt (take l prefix @ pivot # drop l prefix) rest)"

definition listsort :: "('a \<Rightarrow> 'a \<Rightarrow> bool) \<Rightarrow> 'a list \<Rightarrow> 'a list" where
  "listsort lt xs =
     (if length xs < 2 then xs
      else (case count_run lt xs of
              (n, descending) \<Rightarrow>
                (let run = take n xs;
                     run = (if descending then rev run else run)
                 in binarysort lt run (drop n xs))))"

text \<open>
  \<^verbatim>\<open>recommendations.sort(key=..., reverse=True)\<close>: the key is the pair
  \<^verbatim>\<open>(MatchScore, PopularityScore)\<close>. Python compares two tuples at the first
  position where their items are not equal, and two tuples of the same length with
  equal items are not less than one another. With \<^verbatim>\<open>reverse=True\<close> the list is
  reversed, sorted in ascending order and reversed again.
\<close>

definition sort_key_of :: "recommendation \<Rightarrow> rat \<times> pyfloat" where
  "sort_key_of x = (MatchScore x, rec_PopularityScore x)"

definition key_lt :: "rat \<times> pyfloat \<Rightarrow> rat \<times> pyfloat \<Rightarrow> bool" where
  "key_lt v w =
     (if fst v \<noteq> fst w then fst v < fst w
      else if \<not> float_eq (snd v) (snd w) then float_lt (snd v) (snd w)
      else False)"

definition sort_reverse :: "recommendation list \<Rightarrow> recommendation list" where
  "sort_reverse recommendations =
     rev (listsort (\<lambda>a b. key_lt (sort_key_of a) (sort_key_of b)) (rev recommendations))"

text \<open>
  The order the specification asks of a result: an entry is not below a later one in
  the pair (MatchScore, PopularityScore), match score first. For entries whose
  popularity is a number, the pair is a pair of rationals.
\<close>

definition number_key :: "recommendation \<Rightarrow> rat \<times> rat" where
  "number_key x =
     (MatchScore x, (case rec_PopularityScore x of Float p \<Rightarrow> p | FloatNaN \<Rightarrow> 0))"

definition key_ge :: "recommendation \<Rightarrow> recommendation \<Rightarrow> bool" where
  "key_ge a b =
     (MatchScore b < MatchScore a
      \<or> (MatchScore b = MatchScore a
          \<and> float_le (rec_PopularityScore b) (rec_PopularityScore a)))"

text \<open>
  The loop of \<^verbatim>\<open>get_recommendations_by_destination\<close> over the rows of
  \<^verbatim>\<open>destinations_df\<close>: every row whose name is not the queried one is scored
  against the selected row's categories and kept when the score is positive.
\<close>

fun score_other_rows :: "string \<Rightarrow> cell \<Rightarrow> destination list \<Rightarrow> recommendation list" where
  "score_other_rows destination_name selected_category [] = []"
| "score_other_rows destination_name selected_category (dest # rows) =
     (if Name dest \<noteq> Str destination_name then
        (let score = calculate_similarity_score selected_category (Category dest)
         in if score > 0
            then recommendation_of dest score
                   # score_other_rows destination_name selected_category rows
            else score_other_rows destination_name selected_category rows)
      else score_other_rows destination_name selected_category rows)"

text \<open>
  The loop of \<^verbatim>\<open>get_recommendations_by_user\<close> and of
  \<^verbatim>\<open>get_custom_recommendations\<close>: every row is scored against the preferences.
\<close>

fun score_rows :: "cell \<Rightarrow> destination list \<Rightarrow> recommendation list" where
  "score_rows preferences [] = []"
| "score_rows preferences (dest # rows) =
     (let score = calculate_similarity_score preferences (Category dest)
      in if score > 0
         then recommendation_of dest score # score_rows preferences rows
         else score_rows preferences rows)"

text \<open>
  The three entry points. The global \<^verbatim>\<open>destinations_df\<close> and \<^verbatim>\<open>users_df\<close> are
  passed as arguments. \<^verbatim>\<open>selected_dest.iloc[0]\<close> is the first matching row.
\<close>

definition get_recommendations_by_destination ::
    "destination list \<Rightarrow> string \<Rightarrow> recommendation list" where
  "get_recommendations_by_destination destinations_df destination_name =
     (case filter (\<lambda>d. Name d = Str destination_name) destinations_df of
        [] \<Rightarrow> []
      | selected_dest # _ \<Rightarrow>
          take 10 (sort_reverse
            (score_other_rows destination_name (Category selected_dest) destinations_df)))"

definition get_recommendations_by_user ::
    "destination list \<Rightarrow> user list \<Rightarrow> pyid \<Rightarrow> recommendation list" where
  "get_recommendations_by_user destinations_df users_df user_id =
     (case filter (\<lambda>u. str_id (UserID u) = str_id user_id) users_df of
        [] \<Rightarrow> []
      | user # _ \<Rightarrow>
          take 10 (sort_reverse (score_rows (TravelPreferences user) destinations_df)))"

text \<open>
  \<^verbatim>\<open>if state:\<close> tests the truth value of an optional string: \<^verbatim>\<open>None\<close> and the
  empty string are false, every other string is true.
\<close>

definition get_custom_recommendations ::
    "destination list \<Rightarrow> cell \<Rightarrow> string option \<Rightarrow> recommendation list" where
  "get_custom_recommendations destinations_df preferences state =
     (let filtered_df =
            (case state of
               None \<Rightarrow> destinations_df
             | Some s \<Rightarrow>
                 if s \<noteq> [] then filter (\<lambda>d. State d = Str s) destinations_df
                 else destinations_df)
      in take 10 (sort_reverse (score_rows preferences filtered_df)))"

section \<open>The builder (model\_train.py)\<close>

text \<open>
  The script runs top to bottom; an exception that nothing catches ends it. The two
  that can arise in the part modelled here are the AttributeError of \<^verbatim>\<open>strip\<close> on a
  NaN cell and the ValueError of \<^verbatim>\<open>min\<close> on an array without entries.
\<close>

datatype error = AttributeError | ValueError

text \<open>
  \<^verbatim>\<open>destinations['Category'].str.strip()\<close> and \<^verbatim>\<open>.str.split(',')\<close> leave a NaN
  cell as it is; \<^verbatim>\<open>explode\<close> puts the pieces of all rows in one column, and
  \<^verbatim>\<open>unique\<close> keeps the first occurrence of each value.
\<close>

fun str_strip :: "cell \<Rightarrow> cell" where
  "str_strip (Str s) = Str (strip s)"
| "str_strip NaN = NaN"

fun str_split_explode :: "cell list \<Rightarrow> cell list" where
  "str_split_explode [] = []"
| "str_split_explode (Str s # column) = map Str (split_comma s) @ str_split_explode column"
| "str_split_explode (NaN # column) = NaN # str_split_explode column"

definition unique :: "'a list \<Rightarrow> 'a list" where
  "unique xs = rev (remdups (rev xs))"

text \<open>
  The list comprehension \<^verbatim>\<open>[pref.strip() for pref in ...]\<close> raises at the first
  cell that is not a string.
\<close>

fun strip_each :: "cell list \<Rightarrow> error + string list" where
  "strip_each [] = Inr []"
| "strip_each (Str pref # prefs) =
     (case strip_each prefs of Inl e \<Rightarrow> Inl e | Inr out \<Rightarrow> Inr (strip pref # out))"
| "strip_each (NaN # prefs) = Inl AttributeError"

text \<open>
  \<^verbatim>\<open>unique_preferences\<close>, from the \<^verbatim>\<open>Category\<close> column of the catalog.
  \<^verbatim>\<open>sorted(list(set(...)))\<close> is the list of the distinct elements in ascending order
  of strings, which Python compares code point by code point.
\<close>

definition unique_preferences :: "destination list \<Rightarrow> error + string list" where
  "unique_preferences destinations =
     (case strip_each (unique (str_split_explode (map (\<lambda>d. str_strip (Category d)) destinations))) of
        Inl e \<Rightarrow> Inl e
      | Inr prefs \<Rightarrow> Inr (sorted_list_of_set (set prefs)))"

text \<open>
  The vocabulary as the specification words it: the sorted set of the labels that the
  category normaliser (split on commas, trim, lower-case; nothing for an absent field)
  gives for the destinations.
\<close>

definition vocabulary_spec :: "destination list \<Rightarrow> string list" where
  "vocabulary_spec destinations =
     sorted_list_of_set
       (\<Union>d \<in> set destinations. case Category d of Str c \<Rightarrow> parse_cats c | NaN \<Rightarrow> {})"

text \<open>\<^verbatim>\<open>get_category_match_score\<close> and the matrix it fills, row by row.\<close>

definition get_category_match_score :: "string \<Rightarrow> string \<Rightarrow> rat" where
  "get_category_match_score dest_category preference =
     (let dest_cats = map (\<lambda>cat. lower (strip cat)) (split_comma dest_category)
      in if lower preference \<in> set dest_cats then 1 else 0)"

definition category_match_matrix :: "string list \<Rightarrow> string list \<Rightarrow> rat list list" where
  "category_match_matrix categories unique_prefs =
     map (\<lambda>dest_category. map (\<lambda>pref. get_category_match_score dest_category pref) unique_prefs)
       categories"

text \<open>
  A two-dimensional array is the list of its rows. Entries are floats in the program;
  here they are rationals and the arithmetic is exact. \<^verbatim>\<open>matrix.min()\<close> and
  \<^verbatim>\<open>matrix.max()\<close> range over all entries and raise ValueError when there is none.
\<close>

type_synonym matrix = "rat list list"

definition normalize_matrix :: "matrix \<Rightarrow> error + matrix" where
  "normalize_matrix matrix =
     (if concat matrix = [] then Inl ValueError
      else (let min_val = Min (set (concat matrix));
                max_val = Max (set (concat matrix))
            in if max_val - min_val > 0
               then Inr (map (map (\<lambda>x. (x - min_val) / (max_val - min_val))) matrix)
               else Inr matrix))"

text \<open>
  The array operations of the blend: \<^verbatim>\<open>c * A\<close>, \<^verbatim>\<open>A + B\<close> for arrays of one
  shape, \<^verbatim>\<open>A.T\<close> and \<^verbatim>\<open>np.dot(A, B)\<close>.
\<close>

definition scale :: "rat \<Rightarrow> matrix \<Rightarrow> matrix" where
  "scale c A = map (map (\<lambda>x. c * x)) A"

definition add :: "matrix \<Rightarrow> matrix \<Rightarrow> matrix" where
  "add A B = map2 (\<lambda>r s. map2 (\<lambda>x y. x + y) r s) A B"

definition T :: "matrix \<Rightarrow> matrix" where
  "T A = (case A of [] \<Rightarrow> [] | r # _ \<Rightarrow> map (\<lambda>j. map (\<lambda>row. row ! j) A) [0..<length r])"

definition dot :: "matrix \<Rightarrow> matrix \<Rightarrow> matrix" where
  "dot A B = map (\<lambda>r. map (\<lambda>c. sum_list (map2 (\<lambda>x y. x * y) r c)) (T B)) A"

text \<open>
  \<^verbatim>\<open>hybrid_similarity\<close>, from the content similarity (the cosine similarities of the
  TF-IDF vectors, computed by a library and taken as given) and the category match
  matrix. The weights 0.6 and 0.4 are the rationals 3/5 and 2/5.
\<close>

definition hybrid_similarity :: "matrix \<Rightarrow> matrix \<Rightarrow> error + matrix" where
  "hybrid_similarity content_similarity category_match =
     (case normalize_matrix content_similarity of
        Inl e \<Rightarrow> Inl e
      | Inr content_similarity' \<Rightarrow>
          (case normalize_matrix category_match of
             Inl e \<Rightarrow> Inl e
           | Inr category_match' \<Rightarrow>
               normalize_matrix
                 (add (scale (3 / 5) content_similarity')
                      (scale (2 / 5) (dot category_match' (T category_match'))))))"

text \<open>The shape of an array: \<open>n\<close> rows of \<open>m\<close> entries each.\<close>

definition shape :: "nat \<Rightarrow> nat \<Rightarrow> matrix \<Rightarrow> bool" where
  "shape n m A = (length A = n \<and> list_all (\<lambda>r. length r = m) A)"

section \<open>The scenario of the specification\<close>

text \<open>
  Three destinations of one state, A with categories Beach and Adventure, B with Beach
  and Culture, C with Culture, and one user who likes beaches.
\<close>

definition scenario_catalog :: "destination list" where
  "scenario_catalog =
     [\<lparr> Name = Str ''A'', District = Str ''North'', State = Str ''Goa'',
        Category = Str ''Beach,Adventure'', BestTimeToVisit = Str ''Nov-Feb'',
        PopularityScore = Float (9 / 10) \<rparr>,
      \<lparr> Name = Str ''B'', District = Str ''South'', State = Str ''Goa'',
        Category = Str ''Beach,Culture'', BestTimeToVisit = Str ''Nov-Feb'',
        PopularityScore = Float (1 / 2) \<rparr>,
      \<lparr> Name = Str ''C'', District = Str ''South'', State = Str ''Goa'',
        Category = Str ''Culture'', BestTimeToVisit = NaN,
        PopularityScore = Float (4 / 5) \<rparr>]"

definition scenario_users :: "user list" where
  "scenario_users =
     [\<lparr> UserID = IdInt 1, UserName = Str ''Asha'', Gender = Str ''Female'',
        Location = Str ''Pune'', TravelPreferences = Str ''Beach, Nature'',
        NumberOfAdults = 2, NumberOfChildren = 0 \<rparr>]"

text \<open>
  Four beach destinations of which the second has a blank popularity cell, and a
  catalog that writes one label in two cases.
\<close>

definition blank_popularity_catalog :: "destination list" where
  "blank_popularity_catalog =
     [\<lparr> Name = Str ''Q1'', District = Str ''North'', State = Str ''Goa'',
        Category = Str ''Beach'', BestTimeToVisit = Str ''Nov-Feb'',
        PopularityScore = Float (1 / 4) \<rparr>,
      \<lparr> Name = Str ''Q2'', District = Str ''North'', State = Str ''Goa'',
        Category = Str ''Beach'', BestTimeToVisit = Str ''Nov-Feb'',
        PopularityScore = FloatNaN \<rparr>,
      \<lparr> Name = Str ''Q3'', District = Str ''South'', State = Str ''Goa'',
        Category = Str ''Beach'', BestTimeToVisit = Str ''Nov-Feb'',
        PopularityScore = Float (3 / 4) \<rparr>,
      \<lparr> Name = Str ''Q4'', District = Str ''South'', State = Str ''Goa'',
        Category = Str ''Beach'', BestTimeToVisit = Str ''Nov-Feb'',
        PopularityScore = Float (1 / 2) \<rparr>]"

definition mixed_case_catalog :: "destination list" where
  "mixed_case_catalog =
     [\<lparr> Name = Str ''P1'', District = Str ''North'', State = Str ''Goa'',
        Category = Str ''Beach,Hills'', BestTimeToVisit = Str ''Nov-Feb'',
        PopularityScore = Float (1 / 2) \<rparr>,
      \<lparr> Name = Str ''P2'', District = Str ''South'', State = Str ''Goa'',
        Category = Str ''beach'', BestTimeToVisit = Str ''Nov-Feb'',
        PopularityScore = Float (1 / 2) \<rparr>]"

section \<open>Properties of the scorer\<close>

lemma split_comma_not_Nil: "split_comma s \<noteq> []"
  by (induction s) (auto split: list.splits)

lemma parse_cats_not_empty: "parse_cats s \<noteq> {}"
  by (simp add: parse_cats_def split_comma_not_Nil)

lemma finite_parse_cats: "finite (parse_cats s)"
  by (simp add: parse_cats_def)

lemma card_parse_cats_pos: "0 < card (parse_cats s)"
  using parse_cats_not_empty [of s] finite_parse_cats [of s] by (simp add: card_gt_0_iff)

lemma calculate_similarity_score_Str:
  "calculate_similarity_score (Str q) (Str d) =
     of_nat (card (parse_cats q \<inter> parse_cats d)) / of_nat (card (parse_cats q))"
  by (simp add: parse_cats_not_empty Let_def)

lemma parse_cats_image: "parse_cats s = (\<lambda>t. lower (strip t)) ` set (split_comma s)"
  by (simp add: parse_cats_def)

text \<open>
  Claim C1. For a query string and a destination string whose comma-separated pieces
  are all non-empty after trimming, \<^verbatim>\<open>calculate_similarity_score\<close> returns the
  number of common labels divided by the number of query labels, where the labels of a
  string are its trimmed, lower-cased pieces; and the query has at least one label.
\<close>

theorem overlap_coefficient:
  assumes "\<forall>t \<in> set (split_comma q). strip t \<noteq> []"
    and "\<forall>t \<in> set (split_comma d). strip t \<noteq> []"
  shows "calculate_similarity_score (Str q) (Str d) =
           of_nat (card ((\<lambda>t. lower (strip t)) ` set (split_comma q)
                         \<inter> (\<lambda>t. lower (strip t)) ` set (split_comma d)))
           / of_nat (card ((\<lambda>t. lower (strip t)) ` set (split_comma q)))
         \<and> 0 < card ((\<lambda>t. lower (strip t)) ` set (split_comma q))"
proof -
  have "calculate_similarity_score (Str q) (Str d) =
          of_nat (card (parse_cats q \<inter> parse_cats d)) / of_nat (card (parse_cats q))"
    by (rule calculate_similarity_score_Str)
  moreover have "0 < card (parse_cats q)"
    by (rule card_parse_cats_pos)
  ultimately show ?thesis
    unfolding parse_cats_image by (rule conjI)
qed

theorem overlap_coefficient_witness:
  "map strip (split_comma ''Beach, Culture'') = [''Beach'', ''Culture'']
   \<and> map strip (split_comma ''beach'') = [''beach'']
   \<and> calculate_similarity_score (Str ''Beach, Culture'') (Str ''beach'') = 1 / 2"
proof -
  let ?Q = "(\<lambda>t. lower (strip t)) ` set (split_comma ''Beach, Culture'')"
  let ?D = "(\<lambda>t. lower (strip t)) ` set (split_comma ''beach'')"
  have q: "\<forall>t \<in> set (split_comma ''Beach, Culture''). strip t \<noteq> []"
    by code_simp
  have d: "\<forall>t \<in> set (split_comma ''beach''). strip t \<noteq> []"
    by code_simp
  have half: "of_nat (card (?Q \<inter> ?D)) / of_nat (card ?Q) = (1 / 2 :: rat)"
    by code_simp
  from overlap_coefficient [OF q d]
  have "calculate_similarity_score (Str ''Beach, Culture'') (Str ''beach'')
          = of_nat (card (?Q \<inter> ?D)) / of_nat (card ?Q)"
    by (rule conjunct1)
  then have "calculate_similarity_score (Str ''Beach, Culture'') (Str ''beach'') = 1 / 2"
    by (simp only: half)
  moreover have "map strip (split_comma ''Beach, Culture'') = [''Beach'', ''Culture'']"
    by code_simp
  moreover have "map strip (split_comma ''beach'') = [''beach'']"
    by code_simp
  ultimately show ?thesis
    by blast
qed

text \<open>
  Claim C2. The empty query string does not score 0 against every destination string:
  its only piece is the empty label, which a destination string with an empty piece
  (the empty string, or one with a trailing comma) shares, and the score is then 1.
  The same holds for a query of blanks. Against a destination string without an empty
  piece the score is 0. The guard for an empty label set never fires on a string,
  since \<^verbatim>\<open>split\<close> always returns a piece.
\<close>

theorem empty_query_scores_one:
  "calculate_similarity_score (Str '''') (Str '''') = 1
   \<and> calculate_similarity_score (Str '''') (Str ''Beach,'') = 1
   \<and> calculate_similarity_score (Str '' '') (Str ''Beach, '') = 1
   \<and> calculate_similarity_score (Str '''') (Str ''Beach'') = 0"
  by code_simp

text \<open>
  Claim C9. A category string with a non-empty label set scores 1 against itself.
\<close>

theorem self_similarity:
  assumes "(\<lambda>t. lower (strip t)) ` set (split_comma c) \<noteq> {}"
  shows "calculate_similarity_score (Str c) (Str c) = 1"
proof -
  from assms have "0 < card (parse_cats c)"
    by (simp add: parse_cats_image card_gt_0_iff)
  moreover have "calculate_similarity_score (Str c) (Str c) =
          of_nat (card (parse_cats c \<inter> parse_cats c)) / of_nat (card (parse_cats c))"
    by (rule calculate_similarity_score_Str)
  ultimately show ?thesis
    by (simp del: calculate_similarity_score.simps)
qed

theorem self_similarity_witness:
  "(\<lambda>t. lower (strip t)) ` set (split_comma ''Beach, Culture'') \<noteq> {}
   \<and> calculate_similarity_score (Str ''Beach, Culture'') (Str ''Beach, Culture'') = 1"
proof -
  have c: "(\<lambda>t. lower (strip t)) ` set (split_comma ''Beach, Culture'') \<noteq> {}"
    by code_simp
  from self_similarity [OF c] c show ?thesis
    by simp
qed

section \<open>Properties of the recommenders\<close>

text \<open>
  The sort, when \<open>lt\<close> is the strict order of a key \<open>f\<close> on the elements of the list:
  the binary search finds the place after the elements not above the pivot, an
  insertion keeps the part in order, both kinds of run are in order once a descending
  one is reversed, and so the result is in order. The sort only rearranges.
\<close>

lemma bsearch_place:
  assumes "sorted (map f xs)"
    and "\<And>x. x \<in> set xs \<Longrightarrow> lt pivot x = (f pivot < f x)"
    and "l \<le> r" and "r \<le> length xs"
    and "\<forall>i<l. f (xs ! i) \<le> f pivot"
    and "\<forall>i. r \<le> i \<and> i < length xs \<longrightarrow> f pivot < f (xs ! i)"
  shows "bsearch lt pivot xs l r \<le> length xs
         \<and> (\<forall>i<bsearch lt pivot xs l r. f (xs ! i) \<le> f pivot)
         \<and> (\<forall>i. bsearch lt pivot xs l r \<le> i \<and> i < length xs \<longrightarrow> f pivot < f (xs ! i))"
  using assms
proof (induction lt pivot xs l r rule: bsearch.induct)
  case (1 lt pivot xs l r)
  show ?case
  proof (cases "l < r")
    case False
    then have stop: "bsearch lt pivot xs l r = l"
      by (simp add: bsearch.simps [of lt pivot xs l r])
    from False "1.prems"(3) have "l = r"
      by simp
    with "1.prems" show ?thesis
      unfolding stop by simp
  next
    case True
    define p where "p = l + (r - l) div 2"
    from True have p: "l \<le> p" "p < r"
      by (simp_all add: p_def)
    with "1.prems" have p_len: "p < length xs"
      by simp
    then have p_set: "xs ! p \<in> set xs"
      by simp
    have mono: "f (xs ! i) \<le> f (xs ! j)" if "i \<le> j" "j < length xs" for i j
      using "1.prems"(1) that by (simp add: sorted_iff_nth_mono)
    show ?thesis
    proof (cases "lt pivot (xs ! p)")
      case lt: True
      then have less: "f pivot < f (xs ! p)"
        using "1.prems"(2) p_set by simp
      have step: "bsearch lt pivot xs l r = bsearch lt pivot xs l p"
        using True lt by (simp add: bsearch.simps [of lt pivot xs l r] p_def Let_def)
      have "\<forall>i. p \<le> i \<and> i < length xs \<longrightarrow> f pivot < f (xs ! i)"
        using less mono by (meson less_le_trans)
      moreover have "l \<le> p" "p \<le> length xs"
        using p p_len by simp_all
      ultimately show ?thesis
        unfolding step
        using "1.IH"(1) [OF True p_def lt "1.prems"(1,2)] "1.prems"(5) by blast
    next
      case ge: False
      then have le: "f (xs ! p) \<le> f pivot"
        using "1.prems"(2) p_set by (simp add: not_less)
      have step: "bsearch lt pivot xs l r = bsearch lt pivot xs (p + 1) r"
        using True ge by (simp add: bsearch.simps [of lt pivot xs l r] p_def Let_def)
      have "\<forall>i<p + 1. f (xs ! i) \<le> f pivot"
        using le mono p_len by (metis Suc_eq_plus1 less_Suc_eq_le order_trans)
      moreover have "p + 1 \<le> r"
        using p by simp
      ultimately show ?thesis
        unfolding step
        using "1.IH"(2) [OF True p_def ge "1.prems"(1,2)] "1.prems"(4,6) by blast
    qed
  qed
qed


lemma sorted_insert_at:
  assumes "sorted (map f xs)" and "k \<le> length xs"
    and "\<forall>i<k. f (xs ! i) \<le> f p"
    and "\<forall>i. k \<le> i \<and> i < length xs \<longrightarrow> f p < f (xs ! i)"
  shows "sorted (map f (take k xs @ p # drop k xs))"
proof -
  have "sorted (map f (take k xs @ drop k xs))"
    using assms(1) by simp
  then have parts: "sorted (map f (take k xs))" "sorted (map f (drop k xs))"
    unfolding map_append sorted_append by simp_all
  have below: "f x \<le> f p" if "x \<in> set (take k xs)" for x
  proof -
    from that obtain i where "i < length (take k xs)" and "take k xs ! i = x"
      by (auto simp: in_set_conv_nth)
    with assms(2,3) show ?thesis
      by auto
  qed
  have above: "f p < f y" if "y \<in> set (drop k xs)" for y
  proof -
    from that obtain j where "j < length (drop k xs)" and "drop k xs ! j = y"
      by (auto simp: in_set_conv_nth)
    with assms(2,4) show ?thesis
      by (auto simp: less_diff_conv add.commute)
  qed
  have "f x \<le> f y" if "x \<in> set (take k xs)" "y \<in> set (drop k xs)" for x y
    using below [OF that(1)] above [OF that(2)] by simp
  with parts below above show ?thesis
    unfolding map_append sorted_append list.map by (auto simp: less_imp_le)
qed

lemma set_insert_at: "set (take l xs @ p # drop l xs) = insert p (set xs)"
proof -
  have "set (take l xs @ p # drop l xs) = insert p (set (take l xs @ drop l xs))"
    by (simp only: set_append list.set) blast
  then show ?thesis
    by simp
qed

lemma set_binarysort: "set (binarysort lt prefix rest) = set prefix \<union> set rest"
  by (induction rest arbitrary: prefix) (simp_all add: Let_def set_insert_at del: set_append)

lemma binarysort_sorted:
  assumes "sorted (map f prefix)"
    and "\<And>a b. a \<in> set prefix \<union> set rest \<Longrightarrow> b \<in> set prefix \<union> set rest
           \<Longrightarrow> lt a b = (f a < f b)"
  shows "sorted (map f (binarysort lt prefix rest))"
  using assms
proof (induction rest arbitrary: prefix)
  case Nil
  then show ?case by simp
next
  case (Cons pivot rest)
  let ?l = "bsearch lt pivot prefix 0 (length prefix)"
  let ?next = "take ?l prefix @ pivot # drop ?l prefix"
  have "?l \<le> length prefix
        \<and> (\<forall>i<?l. f (prefix ! i) \<le> f pivot)
        \<and> (\<forall>i. ?l \<le> i \<and> i < length prefix \<longrightarrow> f pivot < f (prefix ! i))"
  proof (rule bsearch_place [OF Cons.prems(1)])
    show "lt pivot x = (f pivot < f x)" if "x \<in> set prefix" for x
      using that by (intro Cons.prems(2)) simp_all
  qed auto
  then have sorted_next: "sorted (map f ?next)"
    using Cons.prems(1) by (intro sorted_insert_at) simp_all
  have "set ?next = insert pivot (set prefix)"
    by (rule set_insert_at)
  then have "sorted (map f (binarysort lt ?next rest))"
    using sorted_next Cons.prems(2) by (intro Cons.IH) auto
  then show ?case
    by (simp add: Let_def)
qed

lemma run_asc_sorted:
  assumes "\<And>a b. a \<in> insert prev (set xs) \<Longrightarrow> b \<in> insert prev (set xs) \<Longrightarrow> lt a b = (f a < f b)"
  shows "sorted (map f (prev # take (run_asc lt prev xs) xs))"
  using assms
proof (induction xs arbitrary: prev)
  case Nil
  then show ?case by simp
next
  case (Cons x xs)
  show ?case
  proof (cases "lt x prev")
    case True
    then show ?thesis by simp
  next
    case False
    then have "f prev \<le> f x"
      using Cons.prems [of x prev] by (simp add: not_less)
    moreover have "sorted (map f (x # take (run_asc lt x xs) xs))"
      by (rule Cons.IH) (simp add: Cons.prems)
    ultimately show ?thesis
      using False by (simp only: run_asc.simps if_False take_Suc_Cons list.map sorted2)
  qed
qed

lemma run_desc_sorted:
  assumes "\<And>a b. a \<in> insert prev (set xs) \<Longrightarrow> b \<in> insert prev (set xs) \<Longrightarrow> lt a b = (f a < f b)"
  shows "sorted_wrt (\<lambda>a b. (f b :: 'k :: linorder) < f a) (prev # take (run_desc lt prev xs) xs)"
  using assms
proof (induction xs arbitrary: prev)
  case Nil
  then show ?case by simp
next
  case (Cons x xs)
  have tr: "transp (\<lambda>a b. f b < f a)"
    by (auto intro: transpI)
  show ?case
  proof (cases "lt x prev")
    case False
    then show ?thesis by simp
  next
    case True
    then have "f x < f prev"
      using Cons.prems [of x prev] by simp
    moreover have "sorted_wrt (\<lambda>a b. f b < f a) (x # take (run_desc lt x xs) xs)"
      by (rule Cons.IH) (simp add: Cons.prems)
    ultimately show ?thesis
      using True by (simp only: run_desc.simps if_True take_Suc_Cons sorted_wrt2 [OF tr])
  qed
qed

lemma set_listsort: "set (listsort lt xs) = set xs"
proof (cases "length xs < 2")
  case True
  then show ?thesis by (simp add: listsort_def)
next
  case False
  obtain n descending where c: "count_run lt xs = (n, descending)"
    by (cases "count_run lt xs")
  have "set (take n xs) \<union> set (drop n xs) = set xs"
    by (metis append_take_drop_id set_append)
  with False c show ?thesis
    by (simp add: listsort_def set_binarysort Let_def)
qed

lemma listsort_sorted:
  assumes "\<And>a b. a \<in> set xs \<Longrightarrow> b \<in> set xs \<Longrightarrow> lt a b = (f a < f b)"
  shows "sorted (map f (listsort lt xs))"
proof (cases xs)
  case Nil
  then show ?thesis by (simp add: listsort_def)
next
  case (Cons x xs')
  show ?thesis
  proof (cases xs')
    case Nil
    with Cons show ?thesis by (simp add: listsort_def)
  next
    case xs': (Cons y ys)
    have xs: "xs = x # y # ys"
      using Cons xs' by simp
    have agree: "lt a b = (f a < f b)" if "a \<in> insert x (insert y (set ys))"
      "b \<in> insert x (insert y (set ys))" for a b
      using assms [of a b] that by (simp add: xs)
    show ?thesis
    proof (cases "lt y x")
      case False
      let ?n = "2 + run_asc lt y ys"
      have "f x \<le> f y"
        using False agree [of y x] by (simp add: not_less)
      moreover have "sorted (map f (y # take (run_asc lt y ys) ys))"
        by (rule run_asc_sorted) (simp add: agree)
      ultimately have "sorted (map f (take ?n xs))"
        by (simp only: xs add_2_eq_Suc take_Suc_Cons list.map sorted2)
      moreover have "set (take ?n xs) \<union> set (drop ?n xs) = set xs"
        by (metis append_take_drop_id set_append)
      ultimately have "sorted (map f (binarysort lt (take ?n xs) (drop ?n xs)))"
        using assms by (intro binarysort_sorted) auto
      then show ?thesis
        using False by (simp add: listsort_def xs)
    next
      case True
      let ?n = "2 + run_desc lt y ys"
      have tr: "transp (\<lambda>a b. f b < f a)"
        by (auto intro: transpI)
      have "f y < f x"
        using True agree [of y x] by simp
      moreover have "sorted_wrt (\<lambda>a b. f b < f a) (y # take (run_desc lt y ys) ys)"
        by (rule run_desc_sorted) (simp add: agree)
      ultimately have "sorted_wrt (\<lambda>a b. f b < f a) (take ?n xs)"
        by (simp only: xs add_2_eq_Suc take_Suc_Cons sorted_wrt2 [OF tr])
      then have "sorted_wrt (\<lambda>a b. f a < f b) (rev (take ?n xs))"
        by (simp add: sorted_wrt_rev)
      then have "sorted_wrt (\<lambda>a b. f a \<le> f b) (rev (take ?n xs))"
        by (rule sorted_wrt_mono_rel [rotated]) simp
      then have "sorted (map f (rev (take ?n xs)))"
        by (simp only: sorted_map)
      moreover have "set (rev (take ?n xs)) \<union> set (drop ?n xs) = set xs"
        by (metis append_take_drop_id set_append set_rev)
      ultimately have "sorted (map f (binarysort lt (rev (take ?n xs)) (drop ?n xs)))"
        using assms by (intro binarysort_sorted) auto
      then show ?thesis
        using True by (simp add: listsort_def xs)
    qed
  qed
qed

lemma key_lt_number_key:
  assumes "rec_PopularityScore a \<noteq> FloatNaN" and "rec_PopularityScore b \<noteq> FloatNaN"
  shows "key_lt (sort_key_of a) (sort_key_of b) = (number_key a < number_key b)"
proof -
  from assms obtain p q where "rec_PopularityScore a = Float p" "rec_PopularityScore b = Float q"
    by (cases "rec_PopularityScore a"; cases "rec_PopularityScore b") auto
  then show ?thesis
    by (auto simp: key_lt_def sort_key_of_def number_key_def less_prod_def)
qed

lemma key_ge_number_key:
  assumes "rec_PopularityScore a \<noteq> FloatNaN" and "rec_PopularityScore b \<noteq> FloatNaN"
  shows "key_ge a b = (number_key b \<le> number_key a)"
proof -
  from assms obtain p q where "rec_PopularityScore a = Float p" "rec_PopularityScore b = Float q"
    by (cases "rec_PopularityScore a"; cases "rec_PopularityScore b") auto
  then show ?thesis
    by (auto simp: key_ge_def number_key_def less_eq_prod_def)
qed

lemma set_sort_reverse: "set (sort_reverse xs) = set xs"
  by (simp add: sort_reverse_def set_listsort)

lemma sort_reverse_sorted:
  assumes "\<forall>x \<in> set xs. rec_PopularityScore x \<noteq> FloatNaN"
  shows "sorted_wrt key_ge (sort_reverse xs)"
proof -
  let ?lt = "\<lambda>a b. key_lt (sort_key_of a) (sort_key_of b)"
  have "sorted (map number_key (listsort ?lt (rev xs)))"
    using assms by (intro listsort_sorted key_lt_number_key) simp_all
  then have "sorted_wrt (\<lambda>a b. number_key a \<le> number_key b) (listsort ?lt (rev xs))"
    by (simp only: sorted_map)
  then have "sorted_wrt (\<lambda>a b. number_key b \<le> number_key a) (sort_reverse xs)"
    by (simp add: sort_reverse_def sorted_wrt_rev)
  then show ?thesis
  proof (rule sorted_wrt_mono_rel [rotated])
    fix a b
    assume "a \<in> set (sort_reverse xs)" and "b \<in> set (sort_reverse xs)"
      and "number_key b \<le> number_key a"
    with assms show "key_ge a b"
      by (simp add: set_sort_reverse key_ge_number_key)
  qed
qed

lemma score_rows_popularity:
  "x \<in> set (score_rows preferences rows) \<Longrightarrow>
     rec_PopularityScore x \<in> PopularityScore ` set rows"
  by (induction rows) (auto simp: Let_def recommendation_of_def split: if_splits)

lemma score_other_rows_popularity:
  "x \<in> set (score_other_rows destination_name selected_category rows) \<Longrightarrow>
     rec_PopularityScore x \<in> PopularityScore ` set rows"
  by (induction rows) (auto simp: Let_def recommendation_of_def split: if_splits)

lemma ranked_sorted:
  assumes "\<forall>x \<in> set xs. rec_PopularityScore x \<noteq> FloatNaN"
  shows "sorted_wrt key_ge (take 10 (sort_reverse xs))"
  using assms by (intro sorted_wrt_take sort_reverse_sorted)

text \<open>
  Claim C3, as amended. For a catalog in which every popularity score is a number, in
  each of the three query modes the returned list is in non-increasing order of the
  pair (MatchScore, PopularityScore): of two entries, the earlier has the greater match
  score, or the same match score and a popularity at least as great.
\<close>

theorem recommendations_sorted_numbers:
  assumes "\<forall>d \<in> set destinations_df. PopularityScore d \<noteq> FloatNaN"
  shows "sorted_wrt key_ge (get_recommendations_by_destination destinations_df destination_name)
         \<and> sorted_wrt key_ge (get_recommendations_by_user destinations_df users_df user_id)
         \<and> sorted_wrt key_ge (get_custom_recommendations destinations_df preferences state)"
proof -
  have rows: "\<forall>x \<in> set (score_rows p rows). rec_PopularityScore x \<noteq> FloatNaN"
    if "set rows \<subseteq> set destinations_df" for p rows
    using score_rows_popularity [of _ p rows] assms that by fastforce
  have all_rows: "\<forall>x \<in> set (score_rows p destinations_df). rec_PopularityScore x \<noteq> FloatNaN"
    for p
    by (rule rows) simp
  have state_rows:
    "\<forall>x \<in> set (score_rows p (filter P destinations_df)). rec_PopularityScore x \<noteq> FloatNaN"
    for p P
    by (rule rows) simp
  have others: "\<forall>x \<in> set (score_other_rows n c destinations_df). rec_PopularityScore x \<noteq> FloatNaN"
    for n c
    using score_other_rows_popularity [of _ n c destinations_df] assms by fastforce
  have "sorted_wrt key_ge (get_recommendations_by_destination destinations_df destination_name)"
    by (simp add: get_recommendations_by_destination_def ranked_sorted others split: list.split)
  moreover have "sorted_wrt key_ge (get_recommendations_by_user destinations_df users_df user_id)"
    by (simp add: get_recommendations_by_user_def ranked_sorted all_rows split: list.split)
  moreover have "sorted_wrt key_ge (get_custom_recommendations destinations_df preferences state)"
    by (simp add: get_custom_recommendations_def ranked_sorted all_rows state_rows split: option.split)
  ultimately show ?thesis
    by simp
qed

theorem recommendations_sorted_numbers_witness:
  "map PopularityScore scenario_catalog = [Float (9 / 10), Float (1 / 2), Float (4 / 5)]
   \<and> map rec_Name (get_custom_recommendations scenario_catalog (Str ''beach'') None) = [''A'', ''B'']
   \<and> sorted_wrt key_ge (get_custom_recommendations scenario_catalog (Str ''beach'') None)
   \<and> sorted_wrt key_ge (get_recommendations_by_destination scenario_catalog ''A'')
   \<and> sorted_wrt key_ge (get_recommendations_by_user scenario_catalog scenario_users (IdInt 1))"
proof -
  have numbers: "\<forall>d \<in> set scenario_catalog. PopularityScore d \<noteq> FloatNaN"
    by code_simp
  have "map PopularityScore scenario_catalog = [Float (9 / 10), Float (1 / 2), Float (4 / 5)]"
    by code_simp
  moreover
  have "map rec_Name (get_custom_recommendations scenario_catalog (Str ''beach'') None) = [''A'', ''B'']"
    by code_simp
  ultimately show ?thesis
    using recommendations_sorted_numbers [OF numbers, of "''A''" scenario_users "IdInt 1" "Str ''beach''" None]
    by blast
qed

text \<open>
  Claim C3 as stated fails for a catalog with a blank popularity cell. All four
  destinations match the query fully; no key is less than the one before it in the
  reversed list, since a comparison with NaN is false, so the sort takes the whole list
  for an ascending run and leaves it as it is. The result has popularity 1/4 before
  popularity 3/4.
\<close>

theorem recommendations_unsorted_counterexample:
  "map rec_Name (get_custom_recommendations blank_popularity_catalog (Str ''beach'') None)
     = [''Q1'', ''Q2'', ''Q3'', ''Q4'']
   \<and> map MatchScore (get_custom_recommendations blank_popularity_catalog (Str ''beach'') None)
     = [1, 1, 1, 1]
   \<and> map rec_PopularityScore (get_custom_recommendations blank_popularity_catalog (Str ''beach'') None)
     = [Float (1 / 4), FloatNaN, Float (3 / 4), Float (1 / 2)]
   \<and> \<not> sorted_wrt key_ge (get_custom_recommendations blank_popularity_catalog (Str ''beach'') None)"
  by code_simp

text \<open>
  Claim C4. In each of the three query modes the returned list has at most 10 entries.
\<close>

theorem recommendations_at_most_ten:
  "length (get_recommendations_by_destination destinations_df destination_name) \<le> 10
   \<and> length (get_recommendations_by_user destinations_df users_df user_id) \<le> 10
   \<and> length (get_custom_recommendations destinations_df preferences state) \<le> 10"
  by (simp add: get_recommendations_by_destination_def get_recommendations_by_user_def
        get_custom_recommendations_def Let_def split: list.split)

theorem recommendations_at_most_ten_witness:
  "map rec_Name (get_recommendations_by_destination scenario_catalog ''A'') = [''B'']
   \<and> length (get_recommendations_by_destination scenario_catalog ''A'') \<le> 10"
proof -
  have "map rec_Name (get_recommendations_by_destination scenario_catalog ''A'') = [''B'']"
    by code_simp
  with recommendations_at_most_ten [of scenario_catalog "''A''" scenario_users "IdInt 1" "Str ''beach''" None]
  show ?thesis
    by blast
qed

text \<open>
  Claim C5. A destination name that no row of the catalog carries, and a user id whose
  string form no user carries, both give the empty list.
\<close>

theorem unresolved_identifier_empty:
  "((\<forall>d \<in> set destinations_df. Name d \<noteq> Str destination_name)
      \<longrightarrow> get_recommendations_by_destination destinations_df destination_name = [])
   \<and> ((\<forall>u \<in> set users_df. str_id (UserID u) \<noteq> str_id user_id)
      \<longrightarrow> get_recommendations_by_user destinations_df users_df user_id = [])"
proof (intro conjI impI)
  assume "\<forall>d \<in> set destinations_df. Name d \<noteq> Str destination_name"
  then have "filter (\<lambda>d. Name d = Str destination_name) destinations_df = []"
    by (simp add: filter_empty_conv)
  then show "get_recommendations_by_destination destinations_df destination_name = []"
    by (simp add: get_recommendations_by_destination_def)
next
  assume "\<forall>u \<in> set users_df. str_id (UserID u) \<noteq> str_id user_id"
  then have "filter (\<lambda>u. str_id (UserID u) = str_id user_id) users_df = []"
    by (simp add: filter_empty_conv)
  then show "get_recommendations_by_user destinations_df users_df user_id = []"
    by (simp add: get_recommendations_by_user_def)
qed

theorem unresolved_identifier_empty_witness:
  "map Name scenario_catalog = [Str ''A'', Str ''B'', Str ''C'']
   \<and> get_recommendations_by_destination scenario_catalog ''Nonexistent'' = []
   \<and> map (\<lambda>u. str_id (UserID u)) scenario_users = [''1'']
   \<and> get_recommendations_by_user scenario_catalog scenario_users (IdStr ''2'') = []"
proof -
  have d: "\<forall>d \<in> set scenario_catalog. Name d \<noteq> Str ''Nonexistent''"
    by code_simp
  have u: "\<forall>u \<in> set scenario_users. str_id (UserID u) \<noteq> str_id (IdStr ''2'')"
    by code_simp
  have "map Name scenario_catalog = [Str ''A'', Str ''B'', Str ''C'']"
    by code_simp
  moreover have "map (\<lambda>u. str_id (UserID u)) scenario_users = [''1'']"
    by code_simp
  moreover
  from unresolved_identifier_empty [of scenario_catalog "''Nonexistent''" scenario_users "IdStr ''2''"] d u
  have "get_recommendations_by_destination scenario_catalog ''Nonexistent'' = []"
    and "get_recommendations_by_user scenario_catalog scenario_users (IdStr ''2'') = []"
    by blast+
  ultimately show ?thesis
    by blast
qed

text \<open>
  Claim C10. In \<^verbatim>\<open>get_custom_recommendations\<close> the empty string as state gives the
  same result as no state, and that result is computed from all rows of the catalog.
\<close>

theorem empty_state_no_filter:
  "get_custom_recommendations destinations_df preferences (Some '''')
     = get_custom_recommendations destinations_df preferences None
   \<and> get_custom_recommendations destinations_df preferences None
     = take 10 (sort_reverse (score_rows preferences destinations_df))"
  by (simp add: get_custom_recommendations_def)


theorem empty_state_no_filter_witness:
  "map rec_Name (get_custom_recommendations scenario_catalog (Str ''culture'') (Some '''')) = [''C'', ''B'']
   \<and> get_custom_recommendations scenario_catalog (Str ''culture'') (Some ''Kerala'') = []"
proof -
  have "map rec_Name (get_custom_recommendations scenario_catalog (Str ''culture'') None) = [''C'', ''B'']"
    by code_simp
  moreover have "get_custom_recommendations scenario_catalog (Str ''culture'') (Some ''Kerala'') = []"
    by code_simp
  ultimately show ?thesis
    using empty_state_no_filter [of scenario_catalog "Str ''culture''"] by simp
qed

section \<open>Properties of the builder\<close>

lemma Min_le_Max_list: "xs \<noteq> [] \<Longrightarrow> Min (set xs) \<le> Max (set xs)"
  by (simp add: Min_le_iff)

lemma guard_positive_range:
  "(mn :: rat) \<le> mx \<Longrightarrow> (if mx - mn > 0 then a else b) = (if mx = mn then b else a)"
  by auto

text \<open>
  Claim C8. On a matrix with entries, \<^verbatim>\<open>normalize_matrix\<close> returns the matrix
  unchanged when its greatest entry equals its least, and otherwise every entry minus
  the least, divided by the difference of the greatest and the least.
\<close>

theorem normalize_matrix_cases:
  assumes "concat M \<noteq> []"
  shows "normalize_matrix M =
           (if Max (set (concat M)) = Min (set (concat M)) then Inr M
            else Inr (map (map (\<lambda>x. (x - Min (set (concat M)))
                                      / (Max (set (concat M)) - Min (set (concat M))))) M))"
proof -
  from assms have le: "Min (set (concat M)) \<le> Max (set (concat M))"
    by (rule Min_le_Max_list)
  from assms show ?thesis
    unfolding normalize_matrix_def Let_def
    by (simp only: if_False guard_positive_range [OF le])
qed

theorem normalize_matrix_cases_witness:
  "concat [[1, 1], [1, 1 :: rat]] \<noteq> []
   \<and> normalize_matrix [[1, 1], [1, 1]] = Inr [[1, 1], [1, 1]]
   \<and> concat [[1, 2], [3, 5 :: rat]] \<noteq> []
   \<and> normalize_matrix [[1, 2], [3, 5]] = Inr [[0, 1 / 4], [1 / 2, 1]]"
proof -
  have a: "concat [[1, 1], [1, 1 :: rat]] \<noteq> []" by simp
  have b: "concat [[1, 2], [3, 5 :: rat]] \<noteq> []" by simp
  have "normalize_matrix [[1, 1], [1, 1]] = Inr [[1, 1], [1, 1]]"
    using normalize_matrix_cases [OF a] by simp
  moreover have "normalize_matrix [[1, 2], [3, 5]] = Inr [[0, 1 / 4], [1 / 2, 1]]"
    using normalize_matrix_cases [OF b] by simp
  ultimately show ?thesis by simp
qed

lemma shape_nth: "shape n m A \<Longrightarrow> i < n \<Longrightarrow> length (A ! i) = m"
  by (simp add: shape_def list_all_length)

lemma shape_length: "shape n m A \<Longrightarrow> length A = n"
  by (simp add: shape_def)

lemma shape_concat_not_Nil:
  assumes "shape n m A" and "0 < n" and "0 < m"
  shows "concat A \<noteq> []"
proof -
  from assms obtain r rest where "A = r # rest" and "length r = m"
    by (cases A) (auto simp: shape_def)
  with \<open>0 < m\<close> show ?thesis
    by auto
qed

lemma shape_map_map: "shape n m A \<Longrightarrow> shape n m (map (map f) A)"
  by (simp add: shape_def list_all_length)

lemma normalize_matrix_shape:
  assumes "shape n m A" and "0 < n" and "0 < m"
  shows "\<exists>A'. normalize_matrix A = Inr A' \<and> shape n m A'"
  using shape_concat_not_Nil [OF assms] shape_map_map [OF assms(1)] assms(1)
  by (simp add: normalize_matrix_def Let_def)

lemma T_shape:
  assumes "shape n m A" and "0 < n"
  shows "T A = map (\<lambda>j. map (\<lambda>row. row ! j) A) [0..<m]"
proof -
  from assms obtain r rest where "A = r # rest" and "length r = m"
    by (cases A) (auto simp: shape_def)
  then show ?thesis
    by (simp add: T_def)
qed

lemma T_T:
  assumes "shape n m A" and "0 < n" and "0 < m"
  shows "T (T A) = A"
proof -
  have TA: "T A = map (\<lambda>j. map (\<lambda>row. row ! j) A) [0..<m]"
    using assms by (simp add: T_shape)
  then have "shape m n (T A)"
    using assms by (simp add: shape_def list_all_length)
  then have "T (T A) = map (\<lambda>i. map (\<lambda>row. row ! i) (T A)) [0..<n]"
    using \<open>0 < m\<close> by (rule T_shape)
  also have "\<dots> = A"
    using assms(1) by (auto simp: TA list_eq_iff_nth_eq shape_length shape_nth)
  finally show ?thesis .
qed

lemma dot_T:
  assumes "shape n m A" and "0 < n" and "0 < m"
  shows "dot A (T A) = map (\<lambda>r. map (\<lambda>s. sum_list (map2 (\<lambda>x y. x * y) r s)) A) A"
  by (simp add: dot_def T_T [OF assms])

lemma inner_product_sum:
  assumes "length r = m" and "length s = m"
  shows "sum_list (map2 (\<lambda>x y. x * y) r s) = (\<Sum>k<m. r ! k * s ! k)"
proof -
  have "sum_list (map2 (\<lambda>x y. x * y) r s)
          = (\<Sum>k = 0..<length (map2 (\<lambda>x y. x * y) r s). map2 (\<lambda>x y. x * y) r s ! k)"
    by (rule sum_list_sum_nth)
  also have "\<dots> = (\<Sum>k = 0..<m. r ! k * s ! k)"
    using assms by (intro sum.cong) auto
  finally show ?thesis
    by (simp add: atLeast0LessThan)
qed

lemma blend_entries:
  assumes X: "shape n n X" and A: "shape n m A" and n: "0 < n" and m: "0 < m"
  shows "add (scale a X) (scale b (dot A (T A)))
           = map (\<lambda>i. map (\<lambda>j. a * X ! i ! j + b * (\<Sum>k<m. A ! i ! k * A ! j ! k)) [0..<n]) [0..<n]"
proof (rule nth_equalityI)
  show "length (add (scale a X) (scale b (dot A (T A))))
          = length (map (\<lambda>i. map (\<lambda>j. a * X ! i ! j + b * (\<Sum>k<m. A ! i ! k * A ! j ! k)) [0..<n]) [0..<n])"
    using X A by (simp add: add_def scale_def dot_T [OF A n m] shape_length)
next
  fix i
  assume "i < length (add (scale a X) (scale b (dot A (T A))))"
  then have i: "i < n"
    using X A by (simp add: add_def scale_def dot_T [OF A n m] shape_length)
  have inner: "sum_list (map2 (\<lambda>x y. x * y) (A ! i) (A ! j)) = (\<Sum>k<m. A ! i ! k * A ! j ! k)"
    if "j < n" for j
    using shape_nth [OF A i] shape_nth [OF A that] by (rule inner_product_sum)
  show "add (scale a X) (scale b (dot A (T A))) ! i
          = map (\<lambda>i. map (\<lambda>j. a * X ! i ! j + b * (\<Sum>k<m. A ! i ! k * A ! j ! k)) [0..<n]) [0..<n] ! i"
    using i shape_nth [OF X i] shape_length [OF X] shape_length [OF A]
    by (auto simp: add_def scale_def dot_T [OF A n m] inner intro!: nth_equalityI)
qed

lemma shape_category_match_matrix:
  "shape (length categories) (length unique_prefs) (category_match_matrix categories unique_prefs)"
  by (simp add: shape_def category_match_matrix_def list_all_length)

text \<open>
  Claim C6. For a content similarity matrix of \<open>n\<close> rows and columns and the category
  match matrix of \<open>n\<close> destinations and \<open>m\<close> vocabulary labels, both normalisations
  succeed, and the hybrid similarity is the normalisation of the matrix whose entry
  \<open>(i, j)\<close> is 0.6 times the normalised content similarity of \<open>i\<close> and \<open>j\<close> plus 0.4
  times the product of rows \<open>i\<close> and \<open>j\<close> of the normalised category match matrix; that
  normalisation succeeds too and gives \<open>n\<close> rows and columns.
\<close>

theorem hybrid_similarity_blend:
  assumes "shape n n content_similarity"
    and "length categories = n" and "length unique_prefs = m"
    and "0 < n" and "0 < m"
  shows "\<exists>cs' cm' hybrid.
           normalize_matrix content_similarity = Inr cs'
           \<and> normalize_matrix (category_match_matrix categories unique_prefs) = Inr cm'
           \<and> hybrid_similarity content_similarity (category_match_matrix categories unique_prefs)
               = normalize_matrix
                   (map (\<lambda>i. map (\<lambda>j. 3 / 5 * cs' ! i ! j
                                        + 2 / 5 * (\<Sum>k<m. cm' ! i ! k * cm' ! j ! k))
                               [0..<n]) [0..<n])
           \<and> hybrid_similarity content_similarity (category_match_matrix categories unique_prefs)
               = Inr hybrid
           \<and> shape n n hybrid"
proof -
  let ?cm = "category_match_matrix categories unique_prefs"
  have cm: "shape n m ?cm"
    using shape_category_match_matrix [of categories unique_prefs] assms by simp
  from normalize_matrix_shape [OF assms(1) \<open>0 < n\<close> \<open>0 < n\<close>]
  obtain cs' where cs': "normalize_matrix content_similarity = Inr cs'" "shape n n cs'"
    by blast
  from normalize_matrix_shape [OF cm \<open>0 < n\<close> \<open>0 < m\<close>]
  obtain cm' where cm': "normalize_matrix ?cm = Inr cm'" "shape n m cm'"
    by blast
  let ?B = "map (\<lambda>i. map (\<lambda>j. 3 / 5 * cs' ! i ! j + 2 / 5 * (\<Sum>k<m. cm' ! i ! k * cm' ! j ! k))
                  [0..<n]) [0..<n]"
  have blend: "add (scale (3 / 5) cs') (scale (2 / 5) (dot cm' (T cm'))) = ?B"
    using cs'(2) cm'(2) \<open>0 < n\<close> \<open>0 < m\<close> by (rule blend_entries)
  have h: "hybrid_similarity content_similarity ?cm = normalize_matrix ?B"
    by (simp add: hybrid_similarity_def cs'(1) cm'(1) blend)
  have "shape n n ?B"
    by (simp add: shape_def list_all_length)
  from normalize_matrix_shape [OF this \<open>0 < n\<close> \<open>0 < n\<close>]
  obtain hybrid where "normalize_matrix ?B = Inr hybrid" and "shape n n hybrid"
    by blast
  with h cs'(1) cm'(1) show ?thesis
    by auto
qed

theorem hybrid_similarity_blend_witness:
  "hybrid_similarity [[1, 1 / 2, 0], [1 / 2, 1, 1 / 4], [0, 1 / 4, 1]]
     (category_match_matrix [''Beach,Adventure'', ''Beach,Culture'', ''Culture'']
        [''Adventure'', ''Beach'', ''Culture''])
   = Inr [[1, 1 / 2, 0], [1 / 2, 1, 11 / 28], [0, 11 / 28, 5 / 7]]"
proof -
  let ?cs = "[[1, 1 / 2, 0], [1 / 2, 1, 1 / 4], [0, 1 / 4, 1 :: rat]]"
  let ?cats = "[''Beach,Adventure'', ''Beach,Culture'', ''Culture'']"
  let ?prefs = "[''Adventure'', ''Beach'', ''Culture'']"
  have "shape 3 3 ?cs"
    by (simp add: shape_def)
  from hybrid_similarity_blend [OF this, of ?cats ?prefs 3]
  obtain cs' cm' where cs': "normalize_matrix ?cs = Inr cs'"
    and cm': "normalize_matrix (category_match_matrix ?cats ?prefs) = Inr cm'"
    and h: "hybrid_similarity ?cs (category_match_matrix ?cats ?prefs)
              = normalize_matrix
                  (map (\<lambda>i. map (\<lambda>j. 3 / 5 * cs' ! i ! j
                                       + 2 / 5 * (\<Sum>k<3. cm' ! i ! k * cm' ! j ! k))
                              [0..<3]) [0..<3])"
    by auto
  have "normalize_matrix ?cs = Inr ?cs"
    by code_simp
  with cs' have 1: "cs' = ?cs"
    by simp
  have "normalize_matrix (category_match_matrix ?cats ?prefs) = Inr [[1, 1, 0], [0, 1, 1], [0, 0, 1]]"
    by code_simp
  with cm' have 2: "cm' = [[1, 1, 0], [0, 1, 1], [0, 0, 1]]"
    by simp
  have "normalize_matrix
          (map (\<lambda>i. map (\<lambda>j. 3 / 5 * ?cs ! i ! j
                    + 2 / 5 * (\<Sum>k<3. [[1, 1, 0], [0, 1, 1], [0, 0, 1 :: rat]] ! i ! k
                                        * [[1, 1, 0], [0, 1, 1], [0, 0, 1]] ! j ! k))
                     [0..<3]) [0..<3])
        = Inr [[1, 1 / 2, 0], [1 / 2, 1, 11 / 28], [0, 11 / 28, 5 / 7]]"
    by code_simp
  with h show ?thesis
    unfolding 1 2 by simp
qed

lemma strip_Cons_space: "isspace c \<Longrightarrow> strip (c # t) = strip t"
  by (simp add: strip_def)

lemma strip_all_space:
  assumes "\<forall>c \<in> set w. isspace c"
  shows "strip w = []"
proof -
  from assms have w: "dropWhile isspace w = []"
    by (induction w) auto
  show ?thesis
    unfolding strip_def w by simp
qed

lemma strip_append_space:
  assumes "\<forall>c \<in> set w. isspace c"
  shows "strip (t @ w) = strip t"
proof (cases "\<forall>c \<in> set t. isspace c")
  case True
  with assms have "\<forall>c \<in> set (t @ w). isspace c"
    by auto
  then have "strip (t @ w) = []"
    by (rule strip_all_space)
  moreover from True have "strip t = []"
    by (rule strip_all_space)
  ultimately show ?thesis
    by simp
next
  case False
  then obtain x where "x \<in> set t" and "\<not> isspace x"
    by blast
  then have "dropWhile isspace (t @ w) = dropWhile isspace t @ w"
    by (rule dropWhile_append1)
  moreover from assms have "dropWhile isspace (rev w @ ys) = dropWhile isspace ys" for ys
    by (intro dropWhile_append2) simp
  ultimately show ?thesis
    by (simp add: strip_def)
qed

lemma not_isspace_comma: "\<not> isspace CHR '',''"
  by (simp add: isspace_def)

lemma split_comma_no_comma: "CHR '','' \<notin> set w \<Longrightarrow> split_comma w = [w]"
  by (induction w) auto

lemma split_comma_space_prefix:
  "\<forall>c \<in> set w. isspace c \<Longrightarrow> map strip (split_comma (w @ s)) = map strip (split_comma s)"
proof (induction w)
  case Nil
  then show ?case by simp
next
  case (Cons c w)
  then have "c \<noteq> CHR '',''" and "isspace c"
    using not_isspace_comma by auto
  with Cons show ?case
    by (cases "split_comma (w @ s)") (auto simp: strip_Cons_space split_comma_not_Nil)
qed

lemma split_comma_append_no_comma:
  "CHR '','' \<notin> set w \<Longrightarrow>
     split_comma (s @ w) = butlast (split_comma s) @ [last (split_comma s) @ w]"
proof (induction s)
  case Nil
  then show ?case by (simp add: split_comma_no_comma)
next
  case (Cons c s)
  then show ?case
    by (cases "split_comma s") (auto simp: split_comma_not_Nil split: list.splits)
qed

lemma split_comma_space_suffix:
  assumes "\<forall>c \<in> set w. isspace c"
  shows "map strip (split_comma (s @ w)) = map strip (split_comma s)"
proof -
  from assms have "CHR '','' \<notin> set w"
    using not_isspace_comma by auto
  then have "map strip (split_comma (s @ w))
               = map strip (butlast (split_comma s)) @ [strip (last (split_comma s) @ w)]"
    by (simp add: split_comma_append_no_comma)
  also have "\<dots> = map strip (butlast (split_comma s) @ [last (split_comma s)])"
    using assms by (simp add: strip_append_space)
  also have "\<dots> = map strip (split_comma s)"
    by (simp add: split_comma_not_Nil)
  finally show ?thesis .
qed

lemma map_strip_split_comma_strip:
  "map strip (split_comma (strip s)) = map strip (split_comma s)"
proof -
  let ?u = "dropWhile isspace s"
  have "?u = strip s @ rev (takeWhile isspace (rev ?u))"
    unfolding strip_def by (metis rev_append rev_rev_ident takeWhile_dropWhile_id)
  then have "map strip (split_comma ?u) = map strip (split_comma (strip s @ rev (takeWhile isspace (rev ?u))))"
    by simp
  also have "\<dots> = map strip (split_comma (strip s))"
    by (rule split_comma_space_suffix) (auto dest: set_takeWhileD)
  finally have u: "map strip (split_comma ?u) = map strip (split_comma (strip s))" .
  have "map strip (split_comma s) = map strip (split_comma (takeWhile isspace s @ ?u))"
    by simp
  also have "\<dots> = map strip (split_comma ?u)"
    by (rule split_comma_space_prefix) (auto dest: set_takeWhileD)
  finally show ?thesis
    using u by simp
qed

lemma set_unique: "set (unique xs) = set xs"
  by (simp add: unique_def)

lemma str_split_explode_Str:
  "str_split_explode (map (\<lambda>c. str_strip (Str c)) categories)
     = map Str (concat (map (\<lambda>c. split_comma (strip c)) categories))"
  by (induction categories) auto

lemma strip_each_Str:
  "set cells \<subseteq> range Str \<Longrightarrow> \<exists>out. strip_each cells = Inr out \<and> set out = (\<lambda>c. strip (py_str c)) ` set cells"
proof (induction cells rule: strip_each.induct)
  case 1
  then show ?case by simp
next
  case (2 pref prefs)
  then show ?case by auto
next
  case (3 prefs)
  then show ?case by auto
qed

text \<open>
  What the builder computes for a catalog whose \<^verbatim>\<open>Category\<close> cells are all strings:
  the sorted list of the distinct trimmed pieces of the category strings, in the case in
  which the catalog writes them.
\<close>

lemma vocabulary_case_preserved:
  assumes "map Category destinations = map Str categories"
  shows "unique_preferences destinations =
           Inr (sorted_list_of_set (\<Union>c \<in> set categories. strip ` set (split_comma c)))"
proof -
  let ?cells = "unique (str_split_explode (map (\<lambda>d. str_strip (Category d)) destinations))"
  have "map (\<lambda>d. str_strip (Category d)) destinations = map str_strip (map Category destinations)"
    by simp
  also have "\<dots> = map (\<lambda>c. str_strip (Str c)) categories"
    by (simp add: assms)
  finally have cells: "set ?cells = Str ` set (concat (map (\<lambda>c. split_comma (strip c)) categories))"
    by (simp only: set_unique str_split_explode_Str set_map)
  then have "set ?cells \<subseteq> range Str"
    by blast
  then obtain out where out: "strip_each ?cells = Inr out"
      and "set out = (\<lambda>c. strip (py_str c)) ` set ?cells"
    using strip_each_Str by blast
  then have "set out = (\<Union>c \<in> set categories. set (map strip (split_comma (strip c))))"
    unfolding cells by (simp add: image_image image_UN)
  then have "set out = (\<Union>c \<in> set categories. strip ` set (split_comma c))"
    by (simp only: map_strip_split_comma_strip set_map)
  with out show ?thesis
    by (simp add: unique_preferences_def)
qed

text \<open>
  Claim C7. The builder's vocabulary is not the sorted set of lower-cased labels: the
  builder trims the labels and does not lower-case them. On the scenario it keeps the
  capitals. On a catalog that writes one label in two cases it has both spellings, and
  since the builder's own \<^verbatim>\<open>get_category_match_score\<close> lower-cases both sides, the
  two columns of the category match matrix are the same.
\<close>

theorem vocabulary_not_lowercased:
  "unique_preferences scenario_catalog = Inr [''Adventure'', ''Beach'', ''Culture'']
   \<and> vocabulary_spec scenario_catalog = [''adventure'', ''beach'', ''culture'']
   \<and> unique_preferences mixed_case_catalog = Inr [''Beach'', ''Hills'', ''beach'']
   \<and> vocabulary_spec mixed_case_catalog = [''beach'', ''hills'']
   \<and> get_category_match_score ''beach'' ''Beach'' = 1
   \<and> category_match_matrix [''Beach,Hills'', ''beach''] [''Beach'', ''Hills'', ''beach'']
       = [[1, 1, 1], [1, 0, 1]]"
  by code_simp

end
